theory Spec2Isabelle
  imports Complex_Main
begin

section \<open>Python floats\<close>

text \<open>
  The program computes on Python \<^verbatim>\<open>float\<close>s, which are IEEE 754 binary64 values.
  A float is modelled as the real number it denotes, or one of the three special
  values.  The two zeros are identified: the program only compares floats and does
  arithmetic on them, and \<^verbatim>\<open>-0.0 == 0.0\<close>.
\<close>

datatype pyfloat = Finite (float_val: real) | PosInf | NegInf | NaN

text \<open>\<open>flog2 x\<close> is the binary exponent of a positive real: \<open>2 ^ flog2 x \<le> x < 2 ^ (flog2 x + 1)\<close>.\<close>

function flog2 :: "real \<Rightarrow> int" where
  "flog2 x =
     (if x \<le> 0 then 0
      else if x < 1 then flog2 (2 * x) - 1
      else if 2 \<le> x then flog2 (x / 2) + 1
      else 0)"
  by pat_completeness auto
termination
proof (relation "measure (\<lambda>x. if x < 1 then nat \<lfloor>1 / x\<rfloor> + 1 else nat \<lfloor>x\<rfloor>)")
  show "wf (measure (\<lambda>x::real. if x < 1 then nat \<lfloor>1 / x\<rfloor> + 1 else nat \<lfloor>x\<rfloor>))"
    by simp
next
  fix x :: real
  assume a: "\<not> x \<le> 0" "x < 1"
  show "(2 * x, x) \<in> measure (\<lambda>x. if x < 1 then nat \<lfloor>1 / x\<rfloor> + 1 else nat \<lfloor>x\<rfloor>)"
  proof (cases "2 * x < 1")
    case True
    from a True have "2 < 1 / x" by (simp add: field_simps)
    then have "1 / (2 * x) \<le> 1 / x - 1" using a by (simp add: field_simps)
    then have "\<lfloor>1 / (2 * x)\<rfloor> \<le> \<lfloor>1 / x - 1\<rfloor>" by (rule floor_mono)
    then have "\<lfloor>1 / (2 * x)\<rfloor> < \<lfloor>1 / x\<rfloor>" by simp
    moreover have "0 \<le> \<lfloor>1 / (2 * x)\<rfloor>" using a by simp
    ultimately show ?thesis using True a by simp
  next
    case False
    then have "\<lfloor>2 * x\<rfloor> = 1" using a by (simp add: floor_eq_iff)
    moreover have "1 \<le> \<lfloor>1 / x\<rfloor>" using a by (simp add: le_floor_iff)
    ultimately show ?thesis using False a by simp
  qed
next
  fix x :: real
  assume a: "\<not> x \<le> 0" "\<not> x < 1" "2 \<le> x"
  then have "x / 2 \<le> x - 1" by simp
  then have "\<lfloor>x / 2\<rfloor> \<le> \<lfloor>x - 1\<rfloor>" by (rule floor_mono)
  then have "\<lfloor>x / 2\<rfloor> < \<lfloor>x\<rfloor>" by simp
  moreover have "0 \<le> \<lfloor>x / 2\<rfloor>" using a by simp
  ultimately show "(x / 2, x) \<in> measure (\<lambda>x. if x < 1 then nat \<lfloor>1 / x\<rfloor> + 1 else nat \<lfloor>x\<rfloor>)"
    using a by simp
qed

declare flog2.simps [simp del]

text \<open>Rounding a non-negative real to the nearest integer, ties to the even one.\<close>

definition round_half_even :: "real \<Rightarrow> int" where
  "round_half_even q =
     (let f = \<lfloor>q\<rfloor>; d = q - of_int f
      in if d < 1 / 2 then f
         else if 1 / 2 < d then f + 1
         else if even f then f else f + 1)"

text \<open>
  \<open>round_double x\<close> is the binary64 value nearest to the real \<open>x\<close> (round to nearest,
  ties to even): 53 significant bits, the least exponent of the last bit \<open>-1074\<close>
  (subnormal numbers), and overflow to infinity from \<open>2 ^ 1024\<close>.
\<close>

definition round_double :: "real \<Rightarrow> pyfloat" where
  "round_double x =
     (if x = 0 then Finite 0
      else
        let e = max (flog2 \<bar>x\<bar> - 52) (- 1074);
            n = round_half_even (\<bar>x\<bar> / 2 powi e);
            y = of_int n * 2 powi e
        in if 2 ^ 1024 \<le> y then (if 0 < x then PosInf else NegInf)
           else Finite (sgn x * y))"

text \<open>A real number is a binary64 value when rounding leaves it unchanged.\<close>

definition is_double :: "pyfloat \<Rightarrow> bool" where
  "is_double v = (case v of Finite x \<Rightarrow> round_double x = Finite x | _ \<Rightarrow> True)"

fun fadd :: "pyfloat \<Rightarrow> pyfloat \<Rightarrow> pyfloat" where
  "fadd NaN _ = NaN"
| "fadd _ NaN = NaN"
| "fadd PosInf NegInf = NaN"
| "fadd NegInf PosInf = NaN"
| "fadd PosInf _ = PosInf"
| "fadd NegInf _ = NegInf"
| "fadd _ PosInf = PosInf"
| "fadd _ NegInf = NegInf"
| "fadd (Finite a) (Finite b) = round_double (a + b)"

fun fsub :: "pyfloat \<Rightarrow> pyfloat \<Rightarrow> pyfloat" where
  "fsub NaN _ = NaN"
| "fsub _ NaN = NaN"
| "fsub PosInf PosInf = NaN"
| "fsub NegInf NegInf = NaN"
| "fsub PosInf _ = PosInf"
| "fsub NegInf _ = NegInf"
| "fsub _ PosInf = NegInf"
| "fsub _ NegInf = PosInf"
| "fsub (Finite a) (Finite b) = round_double (a - b)"

fun fabs :: "pyfloat \<Rightarrow> pyfloat" where
  "fabs (Finite a) = Finite \<bar>a\<bar>"
| "fabs PosInf = PosInf"
| "fabs NegInf = PosInf"
| "fabs NaN = NaN"

text \<open>Comparisons: every comparison with NaN is false.\<close>

fun flt :: "pyfloat \<Rightarrow> pyfloat \<Rightarrow> bool" where
  "flt NaN _ = False"
| "flt _ NaN = False"
| "flt (Finite a) (Finite b) = (a < b)"
| "flt _ NegInf = False"
| "flt PosInf _ = False"
| "flt NegInf _ = True"
| "flt _ PosInf = True"

fun fle :: "pyfloat \<Rightarrow> pyfloat \<Rightarrow> bool" where
  "fle NaN _ = False"
| "fle _ NaN = False"
| "fle (Finite a) (Finite b) = (a \<le> b)"
| "fle NegInf _ = True"
| "fle _ PosInf = True"
| "fle _ NegInf = False"
| "fle PosInf _ = False"

text \<open>\<^verbatim>\<open>a / b\<close> on two Python ints: the correctly rounded quotient.\<close>

datatype error = ValueError | TypeError | KeyError | ZeroDivisionError

definition int_truediv :: "int \<Rightarrow> int \<Rightarrow> error + pyfloat" where
  "int_truediv a b =
     (if b = 0 then Inl ZeroDivisionError else Inr (round_double (of_int a / of_int b)))"

text \<open>
  The builtins \<^verbatim>\<open>min(a, b)\<close> and \<^verbatim>\<open>max(a, b)\<close> keep the first argument unless the
  second is strictly smaller (strictly greater); \<^verbatim>\<open>min(iterable, key=f)\<close> keeps the first
  item whose key is minimal, and raises \<^verbatim>\<open>ValueError\<close> on an empty iterable.
\<close>

definition py_min2 :: "pyfloat \<Rightarrow> pyfloat \<Rightarrow> pyfloat" where
  "py_min2 a b = (if flt b a then b else a)"

definition py_max2 :: "pyfloat \<Rightarrow> pyfloat \<Rightarrow> pyfloat" where
  "py_max2 a b = (if flt a b then b else a)"

fun min_scan :: "('a \<Rightarrow> pyfloat) \<Rightarrow> 'a \<Rightarrow> pyfloat \<Rightarrow> 'a list \<Rightarrow> 'a" where
  "min_scan key best bestval [] = best"
| "min_scan key best bestval (x # xs) =
     (let v = key x
      in if flt v bestval then min_scan key x v xs else min_scan key best bestval xs)"

definition py_min_key :: "('a \<Rightarrow> pyfloat) \<Rightarrow> 'a list \<Rightarrow> error + 'a" where
  "py_min_key key xs =
     (case xs of [] \<Rightarrow> Inl ValueError | x # rest \<Rightarrow> Inr (min_scan key x (key x) rest))"

section \<open>The data model\<close>

record IntermediateSensitivity =
  multiplier :: pyfloat

datatype Sensitivity =
    WindowsSensitivity (tick: int)
  | KDESensitivity (val: pyfloat)

text \<open>The constructors of the two classes validate their argument.\<close>

definition WindowsSensitivity_init :: "int \<Rightarrow> error + Sensitivity" where
  "WindowsSensitivity_init t =
     (if \<not> (1 \<le> t \<and> t \<le> 20) then Inl ValueError else Inr (WindowsSensitivity t))"

definition KDESensitivity_init :: "pyfloat \<Rightarrow> error + Sensitivity" where
  "KDESensitivity_init v =
     (if \<not> (fle (Finite (- 1)) v \<and> fle v (Finite 1)) then Inl ValueError
      else Inr (KDESensitivity v))"

section \<open>The Windows platform\<close>

text \<open>
  The class-level dict, in insertion order (the order in which \<^verbatim>\<open>items()\<close> yields it).
  The first nine values are quotients of ints; the others are float literals.
\<close>

definition the_float :: "error + pyfloat \<Rightarrow> pyfloat" where
  "the_float r = (case r of Inr v \<Rightarrow> v | Inl _ \<Rightarrow> NaN)"

definition tick_map :: "(int \<times> pyfloat) list" where
  "tick_map =
     [(1, the_float (int_truediv 1 32)),
      (2, the_float (int_truediv 1 16)),
      (3, the_float (int_truediv 1 8)),
      (4, the_float (int_truediv 2 8)),
      (5, the_float (int_truediv 3 8)),
      (6, the_float (int_truediv 4 8)),
      (7, the_float (int_truediv 5 8)),
      (8, the_float (int_truediv 6 8)),
      (9, the_float (int_truediv 7 8)),
      (10, Finite 1),
      (11, Finite (5 / 4)),
      (12, Finite (3 / 2)),
      (13, Finite (7 / 4)),
      (14, Finite 2),
      (15, Finite (9 / 4)),
      (16, Finite (5 / 2)),
      (17, Finite (11 / 4)),
      (18, Finite 3),
      (19, Finite (13 / 4)),
      (20, Finite (7 / 2))]"

definition tick_map_getitem :: "int \<Rightarrow> error + pyfloat" where
  "tick_map_getitem k = (case map_of tick_map k of None \<Rightarrow> Inl KeyError | Some v \<Rightarrow> Inr v)"

definition WindowsPlatform_to_intermediate :: "Sensitivity \<Rightarrow> error + IntermediateSensitivity" where
  "WindowsPlatform_to_intermediate sensitivity =
     (case sensitivity of
        WindowsSensitivity t \<Rightarrow>
          (case tick_map_getitem t of
             Inl e \<Rightarrow> Inl e
           | Inr v \<Rightarrow> Inr \<lparr>multiplier = v\<rparr>)
      | _ \<Rightarrow> Inl TypeError)"

definition WindowsPlatform_from_intermediate :: "IntermediateSensitivity \<Rightarrow> error + Sensitivity" where
  "WindowsPlatform_from_intermediate sensitivity =
     (case py_min_key (\<lambda>kv. fabs (fsub (snd kv) (multiplier sensitivity))) tick_map of
        Inl e \<Rightarrow> Inl e
      | Inr closest \<Rightarrow> WindowsSensitivity_init (fst closest))"

section \<open>The KDE platform\<close>

definition KDEPlatform_to_intermediate :: "Sensitivity \<Rightarrow> error + IntermediateSensitivity" where
  "KDEPlatform_to_intermediate sensitivity =
     (case sensitivity of
        KDESensitivity v \<Rightarrow> Inr \<lparr>multiplier = fadd (Finite 1) v\<rparr>
      | _ \<Rightarrow> Inl TypeError)"

definition KDEPlatform_from_intermediate :: "IntermediateSensitivity \<Rightarrow> error + Sensitivity" where
  "KDEPlatform_from_intermediate sensitivity =
     (let v = fsub (multiplier sensitivity) (Finite 1);
          v = py_max2 (Finite (- 1)) (py_min2 (Finite 1) v)
      in KDESensitivity_init v)"

section \<open>Conversion\<close>

datatype SensitivityPlatform = WindowsPlatform | KDEPlatform

fun to_intermediate :: "SensitivityPlatform \<Rightarrow> Sensitivity \<Rightarrow> error + IntermediateSensitivity" where
  "to_intermediate WindowsPlatform s = WindowsPlatform_to_intermediate s"
| "to_intermediate KDEPlatform s = KDEPlatform_to_intermediate s"

fun from_intermediate :: "SensitivityPlatform \<Rightarrow> IntermediateSensitivity \<Rightarrow> error + Sensitivity" where
  "from_intermediate WindowsPlatform m = WindowsPlatform_from_intermediate m"
| "from_intermediate KDEPlatform m = KDEPlatform_from_intermediate m"

definition convert_sensitivity ::
  "SensitivityPlatform \<Rightarrow> SensitivityPlatform \<Rightarrow> Sensitivity \<Rightarrow> error + Sensitivity" where
  "convert_sensitivity from_platform to_platform sensitivity =
     (case to_intermediate from_platform sensitivity of
        Inl e \<Rightarrow> Inl e
      | Inr intermediate \<Rightarrow> from_intermediate to_platform intermediate)"

section \<open>Properties of the float model\<close>

text \<open>The exponent found by \<open>flog2\<close> brackets its argument, and is the only one that does.\<close>

lemma flog2_bounds:
  "0 < x \<Longrightarrow> 2 powi flog2 x \<le> x \<and> x < 2 powi (flog2 x + 1)"
proof (induction x rule: flog2.induct)
  case (1 x)
  have pos: "\<not> x \<le> 0" using "1.prems" by simp
  show ?case
  proof (cases "x < 1")
    case True
    have IH: "2 powi flog2 (2 * x) \<le> 2 * x \<and> 2 * x < 2 powi (flog2 (2 * x) + 1)"
      using "1.IH"(1) [OF pos True] "1.prems" by simp
    have f: "flog2 x = flog2 (2 * x) - 1"
      using True pos by (subst flog2.simps) simp
    have p1: "(2::real) powi (flog2 (2 * x) - 1) = 2 powi flog2 (2 * x) / 2"
      by (simp add: power_int_diff)
    have p2: "(2::real) powi (flog2 (2 * x) + 1) = 2 powi flog2 (2 * x) * 2"
      by (simp add: power_int_add)
    show ?thesis using IH by (simp add: f p1 p2)
  next
    case False
    show ?thesis
    proof (cases "2 \<le> x")
      case True
      have IH: "2 powi flog2 (x / 2) \<le> x / 2 \<and> x / 2 < 2 powi (flog2 (x / 2) + 1)"
        using "1.IH"(2) [OF pos False True] "1.prems" by simp
      have f: "flog2 x = flog2 (x / 2) + 1"
        using True False pos by (subst flog2.simps) simp
      have p2: "(2::real) powi (flog2 (x / 2) + 1) = 2 powi flog2 (x / 2) * 2"
        by (simp add: power_int_add)
      have p3: "(2::real) powi (2 + flog2 (x / 2)) = 4 * 2 powi flog2 (x / 2)"
        by (simp add: power_int_add)
      show ?thesis using IH by (simp add: f p2 p3)
    next
      case ge: False
      have f: "flog2 x = 0"
        using ge False pos by (subst flog2.simps) simp
      show ?thesis using ge False by (simp add: f)
    qed
  qed
qed

lemma powi2_less_imp: "(2::real) powi a < 2 powi b \<Longrightarrow> a < b"
proof (rule ccontr)
  assume lt: "(2::real) powi a < 2 powi b" and "\<not> a < b"
  then have "b \<le> a" by simp
  then have "(2::real) powi b \<le> 2 powi a" by (rule power_int_increasing) simp
  with lt show False by simp
qed

lemma flog2_unique:
  assumes "2 powi e \<le> x" "x < 2 powi (e + 1)"
  shows "flog2 x = e"
proof -
  have "0 < (2::real) powi e" by simp
  with assms have pos: "0 < x" by linarith
  from flog2_bounds [OF pos]
  have b: "2 powi flog2 x \<le> x" "x < 2 powi (flog2 x + 1)" by simp_all
  from b(1) assms(2) have "(2::real) powi flog2 x < 2 powi (e + 1)" by linarith
  then have "flog2 x < e + 1" by (rule powi2_less_imp)
  moreover from assms(1) b(2) have "(2::real) powi e < 2 powi (flog2 x + 1)" by linarith
  then have "e < flog2 x + 1" by (rule powi2_less_imp)
  ultimately show ?thesis by simp
qed

lemma round_half_even_of_int: "round_half_even (of_int k) = k"
  by (simp add: round_half_even_def)

lemma round_half_even_bounds:
  "\<lfloor>q\<rfloor> \<le> round_half_even q \<and> round_half_even q \<le> \<lfloor>q\<rfloor> + 1
   \<and> \<bar>of_int (round_half_even q) - q\<bar> \<le> 1 / 2"
  unfolding round_half_even_def Let_def by (simp; linarith)


lemma powi2_split: "(2::real) powi (a + b) = 2 powi a * 2 powi b"
  by (simp add: power_int_add)

lemma round_double_exact:
  assumes n: "\<bar>n\<bar> < 2 ^ 53" and e: "- 1074 \<le> e" "e \<le> 971"
  shows "round_double (of_int n * 2 powi e) = Finite (of_int n * 2 powi e)"
proof (cases "n = 0")
  case True
  then show ?thesis by (simp add: round_double_def)
next
  case False
  define x where "x = (of_int n :: real) * 2 powi e"
  have ax: "\<bar>x\<bar> = of_int \<bar>n\<bar> * 2 powi e"
    by (simp add: x_def abs_mult)
  have x0: "x \<noteq> 0" using False by (simp add: x_def)
  then have xpos: "0 < \<bar>x\<bar>" by simp
  define f where "f = flog2 \<bar>x\<bar>"
  have lo: "2 powi f \<le> \<bar>x\<bar>"
    using flog2_bounds [OF xpos] by (simp add: f_def)
  have "(of_int \<bar>n\<bar> :: real) < of_int (2 ^ 53)"
    using n by (simp only: of_int_less_iff)
  then have "(of_int \<bar>n\<bar> :: real) < 2 powi 53" by simp
  then have "of_int \<bar>n\<bar> * 2 powi e < (2::real) powi 53 * 2 powi e"
    by (simp add: mult_strict_right_mono)
  then have hi: "\<bar>x\<bar> < 2 powi (53 + e)"
    by (simp only: ax powi2_split)
  from lo hi have "(2::real) powi f < 2 powi (53 + e)" by linarith
  then have fe: "f < 53 + e" by (rule powi2_less_imp)
  define E where "E = max (f - 52) (- 1074)"
  have Ee: "E \<le> e" using fe e by (simp add: E_def)
  have pw: "(2::real) powi e = 2 powi E * 2 ^ nat (e - E)"
  proof -
    have "e = E + (e - E)" by arith
    then have "(2::real) powi e = 2 powi (E + (e - E))" by (rule arg_cong)
    also have "\<dots> = 2 powi E * 2 powi (e - E)" by (rule powi2_split)
    also have "(2::real) powi (e - E) = 2 ^ nat (e - E)"
      using Ee by (simp add: power_int_nonneg_exp)
    finally show ?thesis .
  qed
  define k where "k = \<bar>n\<bar> * 2 ^ nat (e - E)"
  have xk: "\<bar>x\<bar> = of_int k * 2 powi E"
    by (simp add: ax k_def pw)
  have q: "\<bar>x\<bar> / 2 powi E = of_int k"
    by (simp add: xk)
  have rhe: "round_half_even (\<bar>x\<bar> / 2 powi E) = k"
    by (simp only: q round_half_even_of_int)
  have "(2::real) powi (53 + e) \<le> 2 powi 1024"
    using e by (intro power_int_increasing) simp_all
  with hi have small: "\<bar>x\<bar> < 2 ^ 1024" by simp
  have "round_double x = Finite (sgn x * \<bar>x\<bar>)"
    unfolding round_double_def Let_def
    using x0 small by (simp add: rhe xk [symmetric] flip: f_def E_def)
  then have "round_double x = Finite x" by (simp add: sgn_mult_abs)
  then show ?thesis by (simp only: x_def)
qed

lemma round_double_normal:
  assumes b: "2 powi f \<le> \<bar>x\<bar>" "\<bar>x\<bar> < 2 powi (f + 1)" and f: "- 1022 \<le> f" "f < 1023"
  shows "\<exists>n. round_double x = Finite (sgn x * (of_int n * 2 powi (f - 52)))
           \<and> 2 ^ 52 \<le> n \<and> n \<le> 2 ^ 53
           \<and> \<bar>of_int n * 2 powi (f - 52) - \<bar>x\<bar>\<bar> \<le> 2 powi (f - 53)"
proof -
  have fl: "flog2 \<bar>x\<bar> = f" by (rule flog2_unique [OF b])
  have "0 < (2::real) powi f" by simp
  with b(1) have "0 < \<bar>x\<bar>" by linarith
  then have x0: "x \<noteq> 0" by simp
  have E: "max (f - 52) (- 1074) = f - 52" using f by simp
  define u where "u = (2::real) powi (f - 52)"
  have upos: "0 < u" by (simp add: u_def)
  have pf: "(2::real) powi f = 2 ^ 52 * u"
  proof -
    have "f = 52 + (f - 52)" by arith
    then have "(2::real) powi f = 2 powi (52 + (f - 52))" by (rule arg_cong)
    also have "\<dots> = 2 powi 52 * 2 powi (f - 52)" by (rule powi2_split)
    finally show ?thesis by (simp add: u_def)
  qed
  have pf1: "(2::real) powi (f + 1) = 2 ^ 53 * u"
  proof -
    have "f + 1 = 53 + (f - 52)" by arith
    then have "(2::real) powi (f + 1) = 2 powi (53 + (f - 52))" by (rule arg_cong)
    also have "\<dots> = 2 powi 53 * 2 powi (f - 52)" by (rule powi2_split)
    finally show ?thesis by (simp add: u_def)
  qed
  have pf53: "(2::real) powi (f - 53) = u / 2"
  proof -
    have "f - 53 = (f - 52) + (- 1)" by arith
    then have "(2::real) powi (f - 53) = 2 powi ((f - 52) + (- 1))" by (rule arg_cong)
    also have "\<dots> = 2 powi (f - 52) * 2 powi (- 1)" by (rule powi2_split)
    finally show ?thesis by (simp add: u_def power_int_minus)
  qed
  define q where "q = \<bar>x\<bar> / u"
  define n where "n = round_half_even q"
  have q1: "2 ^ 52 \<le> q"
    using b(1) upos by (simp add: q_def pf pos_le_divide_eq)
  have q2: "q < 2 ^ 53"
    using b(2) upos by (simp add: q_def pf1 pos_divide_less_eq)
  have "(of_int (2 ^ 52) :: real) \<le> q" using q1 by simp
  then have fl1: "2 ^ 52 \<le> \<lfloor>q\<rfloor>" by (simp only: le_floor_iff)
  have "q < (of_int (2 ^ 53) :: real)" using q2 by simp
  then have fl2: "\<lfloor>q\<rfloor> < 2 ^ 53" by (simp only: floor_less_iff)
  from round_half_even_bounds [of q]
  have rb: "\<lfloor>q\<rfloor> \<le> n" "n \<le> \<lfloor>q\<rfloor> + 1" "\<bar>of_int n - q\<bar> \<le> 1 / 2"
    by (simp_all add: n_def)
  have n1: "2 ^ 52 \<le> n" using fl1 rb(1) by linarith
  have n2: "n \<le> 2 ^ 53" using fl2 rb(2) by linarith
  have xq: "\<bar>x\<bar> = q * u" using upos by (simp add: q_def)
  have "\<bar>of_int n * u - \<bar>x\<bar>\<bar> = \<bar>of_int n - q\<bar> * u"
    using upos by (simp add: xq abs_mult flip: left_diff_distrib)
  also have "\<dots> \<le> 1 / 2 * u"
    using rb(3) upos by (intro mult_right_mono) simp_all
  finally have err: "\<bar>of_int n * u - \<bar>x\<bar>\<bar> \<le> u / 2" by simp
  have "(of_int n :: real) \<le> of_int (2 ^ 53)" using n2 by (simp only: of_int_le_iff)
  then have "of_int n * u \<le> 2 ^ 53 * u"
    using upos by (simp add: mult_right_mono)
  also have "\<dots> = 2 powi (f + 1)" by (simp only: pf1)
  also have "\<dots> \<le> 2 powi 1023" using f by (intro power_int_increasing) simp_all
  also have "\<dots> < 2 ^ 1024" by simp
  finally have small: "\<not> 2 ^ 1024 \<le> of_int n * u" by simp
  have "round_double x = Finite (sgn x * (of_int n * u))"
    unfolding round_double_def Let_def fl E
    using x0 small by (simp flip: u_def q_def n_def)
  with n1 n2 err show ?thesis
    unfolding pf53 u_def [symmetric] by blast
qed

section \<open>The table\<close>

lemmas round_double_eval = round_double_def round_half_even_def flog2.simps Let_def

lemma tick_map_eq:
  "tick_map =
     [(1, Finite (1 / 32)), (2, Finite (1 / 16)), (3, Finite (1 / 8)), (4, Finite (1 / 4)),
      (5, Finite (3 / 8)), (6, Finite (1 / 2)), (7, Finite (5 / 8)), (8, Finite (3 / 4)),
      (9, Finite (7 / 8)), (10, Finite 1), (11, Finite (5 / 4)), (12, Finite (3 / 2)),
      (13, Finite (7 / 4)), (14, Finite 2), (15, Finite (9 / 4)), (16, Finite (5 / 2)),
      (17, Finite (11 / 4)), (18, Finite 3), (19, Finite (13 / 4)), (20, Finite (7 / 2))]"
  by (simp add: tick_map_def int_truediv_def the_float_def round_double_eval)

lemma tick_map_sorted:
  "sorted_wrt (\<lambda>p q. fst p < fst q \<and> flt (snd p) (snd q)) tick_map"
  by (simp add: tick_map_eq)

lemma tick_map_keys: "kv \<in> set tick_map \<Longrightarrow> 1 \<le> fst kv \<and> fst kv \<le> 20"
  by (auto simp add: tick_map_eq)

lemma tick_map_finite: "(t, v) \<in> set tick_map \<Longrightarrow> v = Finite (float_val v)"
  by (auto simp add: tick_map_eq)

lemma tick_map_has_key:
  assumes "1 \<le> t" "t \<le> 20"
  shows "\<exists>a. map_of tick_map t = Some (Finite a)"
proof -
  from assms have "t \<in> {1, 2, 3, 4, 5, 6, 7, 8, 9, 10, 11, 12, 13, 14, 15, 16, 17, 18, 19, 20}"
    by simp arith
  then have "map_of tick_map t \<noteq> None" by (auto simp add: tick_map_eq)
  then obtain v where v: "map_of tick_map t = Some v" by auto
  then have "(t, v) \<in> set tick_map" by (rule map_of_SomeD)
  then have "v = Finite (float_val v)" by (rule tick_map_finite)
  with v show ?thesis by metis
qed

lemma sorted_wrt_cases:
  "sorted_wrt P xs \<Longrightarrow> x \<in> set xs \<Longrightarrow> y \<in> set xs \<Longrightarrow> x = y \<or> P x y \<or> P y x"
  by (induction xs) auto

lemma min_scan_mem: "min_scan key best bestval xs \<in> set (best # xs)"
  by (induction xs arbitrary: best bestval) (auto simp add: Let_def)

section \<open>Construction and dispatch\<close>

text \<open>
  Claim C3.  Constructing a sensitivity value fails with \<^verbatim>\<open>ValueError\<close> exactly when the
  native value is outside the legal range of its platform, and otherwise yields the object
  holding the given field unchanged: a Windows tick must lie in \<open>1..20\<close> (so \<open>0\<close> and \<open>21\<close>
  fail), a KDE value must be a number in \<open>[-1, 1]\<close> (so the floats written \<^verbatim>\<open>-1.01\<close> and
  \<^verbatim>\<open>1.01\<close> fail, as do the infinities and NaN).
\<close>

theorem construction_validates:
  "WindowsSensitivity_init t
     = (if 1 \<le> t \<and> t \<le> 20 then Inr (WindowsSensitivity t) else Inl ValueError)
   \<and> KDESensitivity_init v
     = (case v of
          Finite x \<Rightarrow> if - 1 \<le> x \<and> x \<le> 1 then Inr (KDESensitivity v) else Inl ValueError
        | _ \<Rightarrow> Inl ValueError)
   \<and> WindowsSensitivity_init 0 = Inl ValueError
   \<and> WindowsSensitivity_init 21 = Inl ValueError
   \<and> KDESensitivity_init (round_double (- (101 / 100))) = Inl ValueError
   \<and> KDESensitivity_init (round_double (101 / 100)) = Inl ValueError"
proof -
  have w: "WindowsSensitivity_init t
     = (if 1 \<le> t \<and> t \<le> 20 then Inr (WindowsSensitivity t) else Inl ValueError)" for t
    by (simp add: WindowsSensitivity_init_def)
  have k: "KDESensitivity_init v
     = (case v of
          Finite x \<Rightarrow> if - 1 \<le> x \<and> x \<le> 1 then Inr (KDESensitivity v) else Inl ValueError
        | _ \<Rightarrow> Inl ValueError)" for v
    by (cases v) (simp_all add: KDESensitivity_init_def)
  have lo: "round_double (- (101 / 100)) = Finite (- (4548635623644201 / 4503599627370496))"
    by (simp add: round_double_eval)
  have hi: "round_double (101 / 100) = Finite (4548635623644201 / 4503599627370496)"
    by (simp add: round_double_eval)
  show ?thesis
    by (simp add: w k lo hi)
qed

theorem construction_validates_witness:
  "WindowsSensitivity_init 7 = Inr (WindowsSensitivity 7)
   \<and> KDESensitivity_init (Finite (1 / 2)) = Inr (KDESensitivity (Finite (1 / 2)))
   \<and> KDESensitivity_init NaN = Inl ValueError"
  using construction_validates [of 7 "Finite (1 / 2)"] construction_validates [of 7 NaN]
  by simp

text \<open>
  Claim C4.  \<^verbatim>\<open>to_intermediate\<close> of a platform raises \<^verbatim>\<open>TypeError\<close> exactly for the
  sensitivity values of the other class: the Windows platform for every value that is not a
  \<open>WindowsSensitivity\<close> (for instance \<open>KDESensitivity 0.0\<close>), the KDE platform for every value
  that is not a \<open>KDESensitivity\<close>; for a value of its own class neither raises it.
\<close>

theorem to_intermediate_type_check:
  "(WindowsPlatform_to_intermediate s = Inl TypeError) = (\<forall>t. s \<noteq> WindowsSensitivity t)
   \<and> (KDEPlatform_to_intermediate s = Inl TypeError) = (\<forall>v. s \<noteq> KDESensitivity v)
   \<and> WindowsPlatform_to_intermediate (KDESensitivity (Finite 0)) = Inl TypeError"
  by (cases s)
     (simp_all add: WindowsPlatform_to_intermediate_def KDEPlatform_to_intermediate_def
        tick_map_getitem_def split: option.split)

theorem to_intermediate_type_check_witness:
  "WindowsPlatform_to_intermediate (KDESensitivity (Finite 1)) = Inl TypeError
   \<and> KDEPlatform_to_intermediate (KDESensitivity (Finite 1)) \<noteq> Inl TypeError"
  using to_intermediate_type_check [of "KDESensitivity (Finite 1)"] by simp

text \<open>
  Claim C9.  The table is strictly increasing: for ticks \<open>t1 < t2\<close> in \<open>1..20\<close> both lookups
  succeed, and the multiplier of \<open>t1\<close> is strictly less than the multiplier of \<open>t2\<close>.
\<close>

theorem tick_map_strictly_increasing:
  assumes "1 \<le> t1" "t1 < t2" "t2 \<le> 20"
  shows "\<exists>a1 a2. tick_map_getitem t1 = Inr (Finite a1) \<and> tick_map_getitem t2 = Inr (Finite a2)
           \<and> a1 < a2"
proof -
  from assms obtain a1 where a1: "map_of tick_map t1 = Some (Finite a1)"
    using tick_map_has_key [of t1] by auto
  from assms obtain a2 where a2: "map_of tick_map t2 = Some (Finite a2)"
    using tick_map_has_key [of t2] by auto
  have m1: "(t1, Finite a1) \<in> set tick_map" using a1 by (rule map_of_SomeD)
  have m2: "(t2, Finite a2) \<in> set tick_map" using a2 by (rule map_of_SomeD)
  from sorted_wrt_cases [OF tick_map_sorted m1 m2] assms(2)
  have "a1 < a2" by auto
  with a1 a2 show ?thesis by (simp add: tick_map_getitem_def)
qed

theorem tick_map_strictly_increasing_witness:
  "\<exists>a1 a2. tick_map_getitem 9 = Inr (Finite a1) \<and> tick_map_getitem 10 = Inr (Finite a2) \<and> a1 < a2"
  using tick_map_strictly_increasing [of 9 10] by simp

text \<open>
  Claim C10.  For a successfully constructed \<open>WindowsSensitivity\<close> the table lookup of
  \<^verbatim>\<open>to_intermediate\<close> never fails: the tick is a key of the table, and the result carries
  exactly the table entry of that tick.
\<close>

theorem to_intermediate_lookup_succeeds:
  assumes "WindowsSensitivity_init t = Inr s"
  shows "\<exists>a. (t, Finite a) \<in> set tick_map \<and> tick_map_getitem t = Inr (Finite a)
           \<and> WindowsPlatform_to_intermediate s = Inr \<lparr>multiplier = Finite a\<rparr>"
proof -
  from assms have r: "1 \<le> t" "t \<le> 20" and s: "s = WindowsSensitivity t"
    by (auto simp add: WindowsSensitivity_init_def split: if_splits)
  from r obtain a where a: "map_of tick_map t = Some (Finite a)"
    using tick_map_has_key [of t] by auto
  then have "(t, Finite a) \<in> set tick_map" by (rule map_of_SomeD)
  with a s show ?thesis
    by (simp add: WindowsPlatform_to_intermediate_def tick_map_getitem_def)
qed

theorem to_intermediate_lookup_succeeds_witness:
  "\<exists>a. (12, Finite a) \<in> set tick_map \<and> tick_map_getitem 12 = Inr (Finite a)
           \<and> WindowsPlatform_to_intermediate (WindowsSensitivity 12) = Inr \<lparr>multiplier = Finite a\<rparr>"
  using to_intermediate_lookup_succeeds [of 12 "WindowsSensitivity 12"]
  by (simp add: WindowsSensitivity_init_def)

text \<open>
  Claim C7.  For every multiplier, finite or not, the Windows \<^verbatim>\<open>from_intermediate\<close> succeeds
  and returns a \<open>WindowsSensitivity\<close> whose tick lies in \<open>1..20\<close>: the validation in the
  constructor never raises there.
\<close>

theorem from_intermediate_tick_in_range:
  "\<exists>t. WindowsPlatform_from_intermediate m = Inr (WindowsSensitivity t) \<and> 1 \<le> t \<and> t \<le> 20"
proof -
  obtain x rest where xs: "tick_map = x # rest"
    by (simp add: tick_map_eq)
  define r where "r = min_scan (\<lambda>kv. fabs (fsub (snd kv) (multiplier m))) x
                        (fabs (fsub (snd x) (multiplier m))) rest"
  have "r \<in> set tick_map" unfolding r_def xs by (rule min_scan_mem)
  then have "1 \<le> fst r \<and> fst r \<le> 20" by (rule tick_map_keys)
  then show ?thesis
    by (simp add: WindowsPlatform_from_intermediate_def py_min_key_def xs
          WindowsSensitivity_init_def flip: r_def)
qed

theorem from_intermediate_tick_in_range_witness:
  "\<exists>t. WindowsPlatform_from_intermediate \<lparr>multiplier = NaN\<rparr> = Inr (WindowsSensitivity t)
     \<and> 1 \<le> t \<and> t \<le> 20"
  using from_intermediate_tick_in_range [of "\<lparr>multiplier = NaN\<rparr>"] by simp

section \<open>Clamping and the nearest tick\<close>

text \<open>
  Claim C6.  For every multiplier the KDE \<^verbatim>\<open>from_intermediate\<close> succeeds: the constructor
  never raises there.  The value it returns is the float difference \<^verbatim>\<open>multiplier - 1.0\<close>
  clamped to \<open>[-1, 1]\<close>, that is \<open>max (-1) (min 1 d)\<close> when the difference is a number \<open>d\<close>,
  \<open>1\<close> for \<open>+inf\<close>, \<open>-1\<close> for \<open>-inf\<close>, and \<open>1\<close> for NaN (what
  \<^verbatim>\<open>max(-1.0, min(1.0, nan))\<close> evaluates to).
\<close>

theorem kde_from_intermediate_clamps:
  "\<exists>r. KDEPlatform_from_intermediate m = Inr (KDESensitivity (Finite r)) \<and> - 1 \<le> r \<and> r \<le> 1
     \<and> (\<forall>d. fsub (multiplier m) (Finite 1) = Finite d \<longrightarrow> r = max (- 1) (min 1 d))
     \<and> (fsub (multiplier m) (Finite 1) = PosInf \<longrightarrow> r = 1)
     \<and> (fsub (multiplier m) (Finite 1) = NegInf \<longrightarrow> r = - 1)
     \<and> (fsub (multiplier m) (Finite 1) = NaN \<longrightarrow> r = 1)"
proof (cases "fsub (multiplier m) (Finite 1)")
  case (Finite d)
  then show ?thesis
    by (simp add: KDEPlatform_from_intermediate_def KDESensitivity_init_def py_min2_def
          py_max2_def Let_def)
next
  case PosInf
  then show ?thesis
    by (simp add: KDEPlatform_from_intermediate_def KDESensitivity_init_def py_min2_def
          py_max2_def Let_def)
next
  case NegInf
  then show ?thesis
    by (simp add: KDEPlatform_from_intermediate_def KDESensitivity_init_def py_min2_def
          py_max2_def Let_def)
next
  case NaN
  then show ?thesis
    by (simp add: KDEPlatform_from_intermediate_def KDESensitivity_init_def py_min2_def
          py_max2_def Let_def)
qed

theorem kde_from_intermediate_clamps_witness:
  "KDEPlatform_from_intermediate \<lparr>multiplier = Finite (7 / 2)\<rparr> = Inr (KDESensitivity (Finite 1))"
proof -
  from kde_from_intermediate_clamps [of "\<lparr>multiplier = Finite (7 / 2)\<rparr>"]
  obtain r where r: "KDEPlatform_from_intermediate \<lparr>multiplier = Finite (7 / 2)\<rparr>
                       = Inr (KDESensitivity (Finite r))"
    and d: "\<forall>d. fsub (multiplier \<lparr>multiplier = Finite (7 / 2)\<rparr>) (Finite 1) = Finite d
              \<longrightarrow> r = max (- 1) (min 1 d)"
    by blast
  have "fsub (multiplier \<lparr>multiplier = Finite (7 / 2)\<rparr>) (Finite 1) = Finite (5 / 2)"
    by (simp add: round_double_eval)
  with d have "r = max (- 1) (min 1 (5 / 2))" by blast
  then have "r = 1" by simp
  with r show ?thesis by simp
qed

text \<open>
  Claim C8.  \<open>KDESensitivity (-1.0)\<close> converted from KDE to Windows is
  \<open>WindowsSensitivity 1\<close>: the KDE platform maps \<open>-1.0\<close> to the multiplier \<open>0.0\<close>, which is
  below every entry of the table, the least being \<open>1/32\<close> at tick 1.
\<close>

theorem kde_minimum_to_windows:
  "KDESensitivity_init (Finite (- 1)) = Inr (KDESensitivity (Finite (- 1)))
   \<and> KDEPlatform_to_intermediate (KDESensitivity (Finite (- 1))) = Inr \<lparr>multiplier = Finite 0\<rparr>
   \<and> tick_map_getitem 1 = Inr (Finite (1 / 32))
   \<and> list_all (\<lambda>kv. flt (Finite 0) (snd kv) \<and> fle (Finite (1 / 32)) (snd kv)) tick_map
   \<and> convert_sensitivity KDEPlatform WindowsPlatform (KDESensitivity (Finite (- 1)))
       = Inr (WindowsSensitivity 1)"
proof -
  have a: "round_double 0 = Finite 0"
    by (simp add: round_double_def)
  have b: "WindowsPlatform_from_intermediate \<lparr>multiplier = Finite 0\<rparr> = Inr (WindowsSensitivity 1)"
    by (simp add: WindowsPlatform_from_intermediate_def py_min_key_def tick_map_eq
          WindowsSensitivity_init_def round_double_eval)
  show ?thesis
    by (simp add: KDESensitivity_init_def KDEPlatform_to_intermediate_def a b
          convert_sensitivity_def tick_map_getitem_def tick_map_eq)
qed

theorem kde_minimum_to_windows_witness:
  "convert_sensitivity KDEPlatform WindowsPlatform (KDESensitivity (Finite (- 1)))
     = Inr (WindowsSensitivity 1)"
  using kde_minimum_to_windows by simp

text \<open>
  When all keys are numbers, the scan returns the first item of the list whose key is
  minimal: the items before it have strictly greater keys, the items after it keys at
  least as great.
\<close>

lemma min_scan_first:
  assumes "\<forall>y \<in> set (b # xs). key y = Finite (k y)"
    and "\<forall>y \<in> set ys. k b < k y" and "\<forall>z \<in> set zs. k b \<le> k z"
  shows "\<exists>ys' zs'. ys @ b # zs @ xs = ys' @ min_scan key b (key b) xs # zs'
           \<and> (\<forall>y \<in> set ys'. k (min_scan key b (key b) xs) < k y)
           \<and> (\<forall>z \<in> set zs'. k (min_scan key b (key b) xs) \<le> k z)"
  using assms
proof (induction xs arbitrary: b ys zs)
  case Nil
  then show ?case by auto
next
  case (Cons x xs)
  have kb: "key b = Finite (k b)" and kx: "key x = Finite (k x)"
    using Cons.prems(1) by simp_all
  show ?case
  proof (cases "k x < k b")
    case True
    have step: "min_scan key b (key b) (x # xs) = min_scan key x (key x) xs"
      using True by (simp add: kb kx)
    have p1: "\<forall>y \<in> set (x # xs). key y = Finite (k y)"
      using Cons.prems(1) by simp
    have p2: "\<forall>y \<in> set (ys @ b # zs). k x < k y"
      using True Cons.prems(2,3) by fastforce
    have p3: "\<forall>z \<in> set []. k x \<le> k z" by simp
    from Cons.IH [OF p1 p2 p3] show ?thesis
      unfolding step by simp
  next
    case False
    have step: "min_scan key b (key b) (x # xs) = min_scan key b (key b) xs"
      using False by (simp add: kb kx)
    have p1: "\<forall>y \<in> set (b # xs). key y = Finite (k y)"
      using Cons.prems(1) by simp
    have p3: "\<forall>z \<in> set (zs @ [x]). k b \<le> k z"
      using False Cons.prems(3) by auto
    from Cons.IH [OF p1 Cons.prems(2) p3] show ?thesis
      unfolding step by simp
  qed
qed

text \<open>
  Every multiplier of the table is a multiple of \<open>1/32\<close>, so its difference with a multiple
  of \<open>1/64\<close> of moderate size is a binary64 value: the subtraction in the key of the scan is
  exact there.
\<close>

lemma tick_map_scaled:
  "map (\<lambda>kv. float_val (snd kv) * 32) tick_map
     = map of_int [1, 2, 4, 8, 12, 16, 20, 24, 28, 32, 40, 48, 56, 64, 72, 80, 88, 96, 104, 112]"
  by (simp add: tick_map_eq)

lemma tick_map_grid:
  assumes "kv \<in> set tick_map"
  shows "\<exists>A::int. float_val (snd kv) = of_int A / 32 \<and> 0 < A \<and> A \<le> 112"
proof -
  from assms have "float_val (snd kv) * 32 \<in> set (map (\<lambda>kv. float_val (snd kv) * 32) tick_map)"
    by simp
  then have "float_val (snd kv) * 32
      \<in> of_int ` set [1, 2, 4, 8, 12, 16, 20, 24, 28, 32, 40, 48, 56, 64, 72, 80, 88, 96, 104, 112 :: int]"
    unfolding tick_map_scaled set_map .
  then obtain A :: int
    where A: "A \<in> set [1, 2, 4, 8, 12, 16, 20, 24, 28, 32, 40, 48, 56, 64, 72, 80, 88, 96, 104, 112]"
      and e: "float_val (snd kv) * 32 = of_int A"
    by blast
  from A have "0 < A \<and> A \<le> 112" by auto
  moreover from e have "float_val (snd kv) = of_int A / 32" by simp
  ultimately show ?thesis by blast
qed

lemma round_double_grid64:
  assumes "\<bar>N\<bar> < 2 ^ 53"
  shows "round_double (of_int N / 64) = Finite (of_int N / 64)"
proof -
  have p: "(2::real) powi (- 6) = 1 / 64" by simp
  have "round_double (of_int N * 2 powi (- 6)) = Finite (of_int N * 2 powi (- 6))"
    using assms by (intro round_double_exact) simp_all
  then show ?thesis unfolding p by simp
qed

lemma tick_map_sub_exact:
  assumes x: "x = of_int X / 64" and X: "\<bar>X\<bar> \<le> 1024" and kv: "kv \<in> set tick_map"
  shows "round_double (float_val (snd kv) - x) = Finite (float_val (snd kv) - x)"
proof -
  from tick_map_grid [OF kv]
  obtain A :: int where a: "float_val (snd kv) = of_int A / 32" and A: "0 < A" "A \<le> 112"
    by blast
  have d: "float_val (snd kv) - x = of_int (2 * A - X) / 64"
    by (simp add: a x field_simps)
  have "\<bar>2 * A - X\<bar> < 2 ^ 53" using A X by simp
  then show ?thesis unfolding d by (rule round_double_grid64)
qed

text \<open>
  Where the subtractions are exact, \<^verbatim>\<open>from_intermediate\<close> returns the least tick among
  those whose multiplier is nearest to the given one.
\<close>

lemma windows_nearest_exact:
  assumes ex: "\<forall>kv \<in> set tick_map.
                 round_double (float_val (snd kv) - x) = Finite (float_val (snd kv) - x)"
  shows "\<exists>t a. WindowsPlatform_from_intermediate \<lparr>multiplier = Finite x\<rparr>
                  = Inr (WindowsSensitivity t)
           \<and> (t, Finite a) \<in> set tick_map
           \<and> (\<forall>t' a'. (t', Finite a') \<in> set tick_map \<longrightarrow>
                 \<bar>a - x\<bar> \<le> \<bar>a' - x\<bar> \<and> (\<bar>a' - x\<bar> = \<bar>a - x\<bar> \<longrightarrow> t \<le> t'))"
proof -
  define key where "key = (\<lambda>kv :: int \<times> pyfloat. fabs (fsub (snd kv) (Finite x)))"
  define k where "k = (\<lambda>kv :: int \<times> pyfloat. \<bar>float_val (snd kv) - x\<bar>)"
  have keys: "key kv = Finite (k kv)" if "kv \<in> set tick_map" for kv
  proof -
    from that have "snd kv = Finite (float_val (snd kv))"
      using tick_map_finite [of "fst kv" "snd kv"] by simp
    then have "key kv = fabs (fsub (Finite (float_val (snd kv))) (Finite x))"
      by (simp add: key_def)
    also have "\<dots> = Finite (k kv)"
      using ex that by (simp add: k_def)
    finally show ?thesis .
  qed
  obtain b rest where xs: "tick_map = b # rest"
    by (simp add: tick_map_eq)
  define r where "r = min_scan key b (key b) rest"
  have "\<forall>y \<in> set (b # rest). key y = Finite (k y)"
    using keys by (simp add: xs)
  from min_scan_first [of b rest key k "[]" "[]", OF this]
  obtain ys zs where split: "tick_map = ys @ r # zs"
    and before: "\<forall>y \<in> set ys. k r < k y" and after: "\<forall>z \<in> set zs. k r \<le> k z"
    by (auto simp add: xs r_def)
  have rin: "r \<in> set tick_map" by (simp add: split)
  have range: "1 \<le> fst r \<and> fst r \<le> 20" using rin by (rule tick_map_keys)
  have res: "WindowsPlatform_from_intermediate \<lparr>multiplier = Finite x\<rparr>
               = Inr (WindowsSensitivity (fst r))"
    using range
    by (simp add: WindowsPlatform_from_intermediate_def py_min_key_def xs
          WindowsSensitivity_init_def flip: key_def r_def)
  have rfin: "(fst r, Finite (float_val (snd r))) \<in> set tick_map"
    using rin tick_map_finite [of "fst r" "snd r"] by simp
  have later: "\<forall>z \<in> set zs. fst r < fst z"
    using tick_map_sorted by (simp add: split sorted_wrt_append)
  have least: "\<bar>float_val (snd r) - x\<bar> \<le> \<bar>a' - x\<bar>
                 \<and> (\<bar>a' - x\<bar> = \<bar>float_val (snd r) - x\<bar> \<longrightarrow> fst r \<le> t')"
    if "(t', Finite a') \<in> set tick_map" for t' a'
  proof -
    from that have "(t', Finite a') \<in> set ys \<or> (t', Finite a') = r \<or> (t', Finite a') \<in> set zs"
      by (auto simp add: split)
    then show ?thesis
    proof (elim disjE)
      assume "(t', Finite a') \<in> set ys"
      with before have "k r < k (t', Finite a')" by blast
      then show ?thesis by (simp add: k_def)
    next
      assume "(t', Finite a') = r"
      then show ?thesis by auto
    next
      assume z: "(t', Finite a') \<in> set zs"
      with after have "k r \<le> k (t', Finite a')" by blast
      moreover from z later have "fst r < t'" by fastforce
      ultimately show ?thesis by (simp add: k_def)
    qed
  qed
  from res rfin least show ?thesis by blast
qed

text \<open>
  Claim C1.  For every tick \<open>t\<close> in \<open>1..20\<close>: constructing \<open>WindowsSensitivity t\<close>,
  applying the Windows \<^verbatim>\<open>to_intermediate\<close> and then the Windows \<^verbatim>\<open>from_intermediate\<close>
  succeeds at each step and gives back a \<open>WindowsSensitivity\<close> whose tick is \<open>t\<close>.
\<close>

theorem windows_roundtrip:
  assumes "1 \<le> t" "t \<le> 20"
  shows "\<exists>s m s'. WindowsSensitivity_init t = Inr s
           \<and> WindowsPlatform_to_intermediate s = Inr m
           \<and> WindowsPlatform_from_intermediate m = Inr s'
           \<and> s' = WindowsSensitivity t \<and> tick s' = t"
proof -
  from assms obtain a where a: "map_of tick_map t = Some (Finite a)"
    using tick_map_has_key [of t] by auto
  then have mem: "(t, Finite a) \<in> set tick_map" by (rule map_of_SomeD)
  have init: "WindowsSensitivity_init t = Inr (WindowsSensitivity t)"
    using assms by (simp add: WindowsSensitivity_init_def)
  have to: "WindowsPlatform_to_intermediate (WindowsSensitivity t) = Inr \<lparr>multiplier = Finite a\<rparr>"
    using a by (simp add: WindowsPlatform_to_intermediate_def tick_map_getitem_def)
  from tick_map_grid [OF mem]
  obtain A :: int where ag: "a = of_int A / 32" and A: "0 < A" "A \<le> 112"
    by auto
  have x: "a = of_int (2 * A) / 64" by (simp add: ag)
  have X: "\<bar>2 * A\<bar> \<le> 1024" using A by simp
  have "\<forall>kv \<in> set tick_map.
          round_double (float_val (snd kv) - a) = Finite (float_val (snd kv) - a)"
    using tick_map_sub_exact [OF x X] by blast
  from windows_nearest_exact [OF this]
  obtain t' a' where res: "WindowsPlatform_from_intermediate \<lparr>multiplier = Finite a\<rparr>
                             = Inr (WindowsSensitivity t')"
    and mem': "(t', Finite a') \<in> set tick_map"
    and least: "\<forall>t'' a''. (t'', Finite a'') \<in> set tick_map \<longrightarrow>
                  \<bar>a' - a\<bar> \<le> \<bar>a'' - a\<bar> \<and> (\<bar>a'' - a\<bar> = \<bar>a' - a\<bar> \<longrightarrow> t' \<le> t'')"
    by blast
  from least mem have "\<bar>a' - a\<bar> \<le> \<bar>a - a\<bar>" by blast
  then have eq: "a' = a" by simp
  from sorted_wrt_cases [OF tick_map_sorted mem' mem] eq have "t' = t" by auto
  with init to res show ?thesis by simp
qed

theorem windows_roundtrip_witness:
  "\<exists>s m s'. WindowsSensitivity_init 20 = Inr s
           \<and> WindowsPlatform_to_intermediate s = Inr m
           \<and> WindowsPlatform_from_intermediate m = Inr s'
           \<and> s' = WindowsSensitivity 20 \<and> tick s' = 20"
  using windows_roundtrip [of 20] by simp

text \<open>
  Claim C5.  When the multiplier \<open>x\<close> is exactly equidistant from the multipliers of two
  different ticks of the table, the Windows \<^verbatim>\<open>from_intermediate\<close> returns a tick of the
  table at minimal distance from \<open>x\<close>, and the least such tick: every tick at the same
  distance is at least as great.
\<close>

theorem windows_tie_break:
  assumes m1: "(t1, Finite a1) \<in> set tick_map" and m2: "(t2, Finite a2) \<in> set tick_map"
    and ne: "t1 \<noteq> t2" and eq: "\<bar>a1 - x\<bar> = \<bar>a2 - x\<bar>"
  shows "\<exists>t a. WindowsPlatform_from_intermediate \<lparr>multiplier = Finite x\<rparr>
                  = Inr (WindowsSensitivity t)
           \<and> (t, Finite a) \<in> set tick_map
           \<and> (\<forall>t' a'. (t', Finite a') \<in> set tick_map \<longrightarrow>
                 \<bar>a - x\<bar> \<le> \<bar>a' - x\<bar> \<and> (\<bar>a' - x\<bar> = \<bar>a - x\<bar> \<longrightarrow> t \<le> t'))"
proof -
  from sorted_wrt_cases [OF tick_map_sorted m1 m2] ne have "a1 \<noteq> a2" by auto
  with eq have mid: "x = (a1 + a2) / 2" by (simp add: abs_if split: if_splits)
  from tick_map_grid [OF m1]
  obtain A1 :: int where g1: "a1 = of_int A1 / 32" and r1: "0 < A1" "A1 \<le> 112"
    by auto
  from tick_map_grid [OF m2]
  obtain A2 :: int where g2: "a2 = of_int A2 / 32" and r2: "0 < A2" "A2 \<le> 112"
    by auto
  have x: "x = of_int (A1 + A2) / 64" by (simp add: mid g1 g2)
  have X: "\<bar>A1 + A2\<bar> \<le> 1024" using r1 r2 by simp
  have "\<forall>kv \<in> set tick_map.
          round_double (float_val (snd kv) - x) = Finite (float_val (snd kv) - x)"
    using tick_map_sub_exact [OF x X] by blast
  then show ?thesis by (rule windows_nearest_exact)
qed

theorem windows_tie_break_witness:
  "(\<exists>t a. WindowsPlatform_from_intermediate \<lparr>multiplier = Finite (3 / 64)\<rparr>
                  = Inr (WindowsSensitivity t)
           \<and> (t, Finite a) \<in> set tick_map
           \<and> (\<forall>t' a'. (t', Finite a') \<in> set tick_map \<longrightarrow>
                 \<bar>a - 3 / 64\<bar> \<le> \<bar>a' - 3 / 64\<bar> \<and> (\<bar>a' - 3 / 64\<bar> = \<bar>a - 3 / 64\<bar> \<longrightarrow> t \<le> t')))
   \<and> WindowsPlatform_from_intermediate \<lparr>multiplier = Finite (3 / 64)\<rparr>
        = Inr (WindowsSensitivity 1)"
proof
  have m1: "(1, Finite (1 / 32)) \<in> set tick_map" by (simp add: tick_map_eq)
  have m2: "(2, Finite (1 / 16)) \<in> set tick_map" by (simp add: tick_map_eq)
  have ne: "(1::int) \<noteq> 2" by simp
  have eq: "\<bar>1 / 32 - 3 / 64\<bar> = \<bar>1 / 16 - 3 / 64 :: real\<bar>" by simp
  show "\<exists>t a. WindowsPlatform_from_intermediate \<lparr>multiplier = Finite (3 / 64)\<rparr>
                  = Inr (WindowsSensitivity t)
           \<and> (t, Finite a) \<in> set tick_map
           \<and> (\<forall>t' a'. (t', Finite a') \<in> set tick_map \<longrightarrow>
                 \<bar>a - 3 / 64\<bar> \<le> \<bar>a' - 3 / 64\<bar> \<and> (\<bar>a' - 3 / 64\<bar> = \<bar>a - 3 / 64\<bar> \<longrightarrow> t \<le> t'))"
    by (rule windows_tie_break [OF m1 m2 ne eq])
  show "WindowsPlatform_from_intermediate \<lparr>multiplier = Finite (3 / 64)\<rparr>
          = Inr (WindowsSensitivity 1)"
    by (simp add: WindowsPlatform_from_intermediate_def py_min_key_def tick_map_eq
          WindowsSensitivity_init_def round_double_eval)
qed

section \<open>The KDE round trip\<close>

text \<open>
  In the binade of exponent \<open>f\<close> the binary64 values are the multiples of
  \<open>u = 2 ^ (f - 52)\<close>, and rounding moves a number by at most \<open>u / 2\<close>.
\<close>

lemma round_double_normal_ulp:
  assumes b: "2 powi f \<le> \<bar>x\<bar>" "\<bar>x\<bar> < 2 powi (f + 1)" and f: "- 1022 \<le> f" "f < 1023"
    and u: "u = 2 powi (f - 52)"
  shows "\<exists>n. round_double x = Finite (sgn x * (of_int n * u))
           \<and> 2 ^ 52 \<le> n \<and> n \<le> 2 ^ 53 \<and> \<bar>of_int n * u - \<bar>x\<bar>\<bar> \<le> u / 2"
proof -
  have "f - 53 = (f - 52) + (- 1)" by arith
  then have "(2::real) powi (f - 53) = 2 powi ((f - 52) + (- 1))" by (rule arg_cong)
  also have "\<dots> = 2 powi (f - 52) * 2 powi (- 1)" by (rule powi2_split)
  finally have h: "(2::real) powi (f - 53) = u / 2" by (simp add: u)
  from round_double_normal [OF b f] show ?thesis
    unfolding h u [symmetric] .
qed

text \<open>
  Adding \<open>1.0\<close> to a binary64 value of \<open>[-1, 1]\<close> and subtracting \<open>1.0\<close> again: the sum
  is rounded once (to a multiple of \<open>2 ^ -52\<close> in \<open>[1, 2]\<close>, of \<open>2 ^ -53\<close> in \<open>[1/2, 1]\<close>, and
  not at all below \<open>1/2\<close>), and the difference is exact.
\<close>

lemma add_one_sub_one:
  assumes dbl: "round_double v = Finite v" and lo: "- 1 \<le> v" and hi: "v \<le> 1"
  shows "\<exists>s r. round_double (1 + v) = Finite s \<and> round_double (s - 1) = Finite r
           \<and> - 1 \<le> r \<and> r \<le> 1 \<and> \<bar>r - v\<bar> \<le> 1 / 2 ^ 53"
proof -
  have one: "round_double 1 = Finite 1" by (simp add: round_double_eval)
  have two: "round_double 2 = Finite 2" by (simp add: round_double_eval)
  have zero: "round_double 0 = Finite 0" by (simp add: round_double_def)
  consider (top) "v = 1" | (bot) "v = - 1" | (pos) "0 \<le> v" "v < 1"
    | (mid) "- 1 / 2 < v" "v < 0" | (low) "- 1 < v" "v \<le> - 1 / 2"
    using lo hi by fastforce
  then show ?thesis
  proof cases
    case top
    then show ?thesis by (simp add: one two)
  next
    case bot
    then show ?thesis using dbl by (simp add: zero)
  next
    case pos
    define u :: real where "u = 1 / 2 ^ 52"
    have up: "u = 2 powi (0 - 52)" by (simp add: u_def)
    have u52: "2 ^ 52 * u = 1" by (simp add: u_def)
    have b: "2 powi 0 \<le> \<bar>1 + v\<bar>" "\<bar>1 + v\<bar> < 2 powi (0 + 1)" using pos by simp_all
    from round_double_normal_ulp [OF b _ _ up]
    obtain n where rd: "round_double (1 + v) = Finite (sgn (1 + v) * (of_int n * u))"
      and n: "2 ^ 52 \<le> n" "n \<le> 2 ^ 53" and err: "\<bar>of_int n * u - \<bar>1 + v\<bar>\<bar> \<le> u / 2"
      by auto
    define s where "s = of_int n * u"
    have sg: "sgn (1 + v) = 1" using pos by simp
    have rds: "round_double (1 + v) = Finite s" by (simp add: rd sg s_def)
    have "s - 1 = of_int n * u - 2 ^ 52 * u" by (simp only: s_def u52)
    also have "\<dots> = of_int (n - 2 ^ 52) * u" by (simp add: left_diff_distrib)
    finally have s1: "s - 1 = of_int (n - 2 ^ 52) * 2 powi (- 52)" by (simp add: u_def)
    have "\<bar>n - 2 ^ 52\<bar> < 2 ^ 53" using n by simp
    then have ex: "round_double (s - 1) = Finite (s - 1)"
      unfolding s1 by (intro round_double_exact) simp_all
    have e: "\<bar>(s - 1) - v\<bar> \<le> u / 2" using err pos by (simp add: s_def abs_if split: if_splits)
    have uh: "u / 2 = 1 / 2 ^ 53" by (simp add: u_def)
    have "(of_int (2 ^ 52) :: real) \<le> of_int n" using n(1) by (simp only: of_int_le_iff)
    then have "2 ^ 52 * u \<le> of_int n * u" by (simp add: u_def)
    then have s_lo: "1 \<le> s" by (simp only: u52 s_def)
    have "(of_int n :: real) \<le> of_int (2 ^ 53)" using n(2) by (simp only: of_int_le_iff)
    then have "of_int n * u \<le> 2 ^ 53 * u" by (simp add: u_def)
    then have s_hi: "s \<le> 2" by (simp add: s_def u_def)
    from rds ex e s_lo s_hi show ?thesis
      unfolding uh by (intro exI [of _ s] exI [of _ "s - 1"]) simp
  next
    case mid
    define u :: real where "u = 1 / 2 ^ 53"
    have up: "u = 2 powi (- 1 - 52)" by (simp add: u_def)
    have u53: "2 ^ 53 * u = 1" by (simp add: u_def)
    have b: "2 powi (- 1) \<le> \<bar>1 + v\<bar>" "\<bar>1 + v\<bar> < 2 powi (- 1 + 1)" using mid by simp_all
    from round_double_normal_ulp [OF b _ _ up]
    obtain n where rd: "round_double (1 + v) = Finite (sgn (1 + v) * (of_int n * u))"
      and n: "2 ^ 52 \<le> n" "n \<le> 2 ^ 53" and err: "\<bar>of_int n * u - \<bar>1 + v\<bar>\<bar> \<le> u / 2"
      by auto
    define s where "s = of_int n * u"
    have sg: "sgn (1 + v) = 1" using mid by simp
    have rds: "round_double (1 + v) = Finite s" by (simp add: rd sg s_def)
    have "s - 1 = of_int n * u - 2 ^ 53 * u" by (simp only: s_def u53)
    also have "\<dots> = of_int (n - 2 ^ 53) * u" by (simp add: left_diff_distrib)
    finally have s1: "s - 1 = of_int (n - 2 ^ 53) * 2 powi (- 53)" by (simp add: u_def)
    have "\<bar>n - 2 ^ 53\<bar> < 2 ^ 53" using n by simp
    then have ex: "round_double (s - 1) = Finite (s - 1)"
      unfolding s1 by (intro round_double_exact) simp_all
    have e: "\<bar>(s - 1) - v\<bar> \<le> u / 2" using err mid by (simp add: s_def abs_if split: if_splits)
    have uh: "u / 2 \<le> 1 / 2 ^ 53" by (simp add: u_def)
    have "(of_int (2 ^ 52) :: real) \<le> of_int n" using n(1) by (simp only: of_int_le_iff)
    then have "2 ^ 52 * u \<le> of_int n * u" by (simp add: u_def)
    then have s_lo: "1 / 2 \<le> s" by (simp add: s_def u_def)
    have "(of_int n :: real) \<le> of_int (2 ^ 53)" using n(2) by (simp only: of_int_le_iff)
    then have "of_int n * u \<le> 2 ^ 53 * u" by (simp add: u_def)
    then have s_hi: "s \<le> 1" by (simp only: s_def u53)
    from e uh have e': "\<bar>(s - 1) - v\<bar> \<le> 1 / 2 ^ 53" by linarith
    from rds ex e' s_lo s_hi show ?thesis
      by (intro exI [of _ s] exI [of _ "s - 1"]) simp
  next
    case low
    define u :: real where "u = 1 / 2 ^ 53"
    have up: "u = 2 powi (- 1 - 52)" by (simp add: u_def)
    have u53: "2 ^ 53 * u = 1" by (simp add: u_def)
    have b: "2 powi (- 1) \<le> \<bar>v\<bar>" "\<bar>v\<bar> < 2 powi (- 1 + 1)" using low by simp_all
    from round_double_normal_ulp [OF b _ _ up]
    obtain n where rd: "round_double v = Finite (sgn v * (of_int n * u))"
      and n: "2 ^ 52 \<le> n" "n \<le> 2 ^ 53"
      by auto
    have sg: "sgn v = - 1" using low by simp
    from rd dbl have v: "v = - (of_int n * u)" by (simp add: sg)
    have "1 + v = 2 ^ 53 * u - of_int n * u" by (simp only: v u53)
    also have "\<dots> = of_int (2 ^ 53 - n) * u" by (simp add: left_diff_distrib)
    finally have s1: "1 + v = of_int (2 ^ 53 - n) * 2 powi (- 53)" by (simp add: u_def)
    have "\<bar>2 ^ 53 - n\<bar> < 2 ^ 53" using n by simp
    then have ex: "round_double (1 + v) = Finite (1 + v)"
      unfolding s1 by (intro round_double_exact) simp_all
    from ex dbl lo hi show ?thesis
      by (intro exI [of _ "1 + v"] exI [of _ v]) simp
  qed
qed


text \<open>
  Claim C2.  For every float \<open>v\<close> with \<open>-1 \<le> v \<le> 1\<close>: constructing \<open>KDESensitivity v\<close>,
  applying the KDE \<^verbatim>\<open>to_intermediate\<close> and then the KDE \<^verbatim>\<open>from_intermediate\<close> succeeds at
  each step, the clamp leaves the difference \<^verbatim>\<open>multiplier - 1.0\<close> unchanged, and the value
  returned differs from \<open>v\<close> by at most \<open>2 ^ -53\<close>, half the spacing of the floats next to
  \<open>1.0\<close>.
\<close>

theorem kde_roundtrip:
  assumes dbl: "is_double (Finite v)" and lo: "- 1 \<le> v" and hi: "v \<le> 1"
  shows "\<exists>s m r. KDESensitivity_init (Finite v) = Inr s
           \<and> KDEPlatform_to_intermediate s = Inr m
           \<and> fsub (multiplier m) (Finite 1) = Finite r
           \<and> KDEPlatform_from_intermediate m = Inr (KDESensitivity (Finite r))
           \<and> \<bar>r - v\<bar> \<le> 1 / 2 ^ 53"
proof -
  from dbl have "round_double v = Finite v" by (simp add: is_double_def)
  from add_one_sub_one [OF this lo hi]
  obtain s r where s: "round_double (1 + v) = Finite s" and r: "round_double (s - 1) = Finite r"
    and range: "- 1 \<le> r" "r \<le> 1" and err: "\<bar>r - v\<bar> \<le> 1 / 2 ^ 53"
    by blast
  have init: "KDESensitivity_init (Finite v) = Inr (KDESensitivity (Finite v))"
    using lo hi by (simp add: KDESensitivity_init_def)
  have to: "KDEPlatform_to_intermediate (KDESensitivity (Finite v)) = Inr \<lparr>multiplier = Finite s\<rparr>"
    by (simp add: KDEPlatform_to_intermediate_def s)
  have sub: "fsub (multiplier \<lparr>multiplier = Finite s\<rparr>) (Finite 1) = Finite r"
    by (simp add: r)
  have "py_min2 (Finite 1) (Finite r) = Finite r"
    using range by (simp add: py_min2_def)
  moreover have "py_max2 (Finite (- 1)) (Finite r) = Finite r"
    using range by (simp add: py_max2_def)
  ultimately have "from": "KDEPlatform_from_intermediate \<lparr>multiplier = Finite s\<rparr>
                             = Inr (KDESensitivity (Finite r))"
    using range by (simp add: KDEPlatform_from_intermediate_def KDESensitivity_init_def r)
  from init to sub "from" err show ?thesis by blast
qed

theorem kde_roundtrip_witness:
  "\<exists>s m r. KDESensitivity_init (Finite (1 / 2)) = Inr s
           \<and> KDEPlatform_to_intermediate s = Inr m
           \<and> fsub (multiplier m) (Finite 1) = Finite r
           \<and> KDEPlatform_from_intermediate m = Inr (KDESensitivity (Finite r))
           \<and> \<bar>r - 1 / 2\<bar> \<le> 1 / 2 ^ 53"
proof -
  have "is_double (Finite (1 / 2))"
    by (simp add: is_double_def round_double_eval)
  from kde_roundtrip [OF this] show ?thesis by simp
qed

text \<open>
  The tolerance is needed: \<open>2 ^ -60\<close> is a binary64 value, \<^verbatim>\<open>1.0 + 2 ** -60\<close> rounds to
  \<open>1.0\<close>, and the round trip returns \<open>0.0\<close>.
\<close>

lemma kde_roundtrip_inexact:
  "is_double (Finite (1 / 2 ^ 60))
   \<and> KDEPlatform_to_intermediate (KDESensitivity (Finite (1 / 2 ^ 60)))
       = Inr \<lparr>multiplier = Finite 1\<rparr>
   \<and> KDEPlatform_from_intermediate \<lparr>multiplier = Finite 1\<rparr> = Inr (KDESensitivity (Finite 0))"
  by (simp add: is_double_def KDEPlatform_to_intermediate_def KDEPlatform_from_intermediate_def
        KDESensitivity_init_def py_min2_def py_max2_def round_double_eval)

end
